theory Spec2Isabelle
  imports Complex_Main "HOL-Library.Word" "HOL-Library.Multiset"
begin

section \<open>Patch blending: the data model\<close>

text \<open>
  The development follows \<^verbatim>\<open>src/inference/utils/blend.py\<close>. Arithmetic is exact:
  samples, weights and coordinates are real numbers, so the rounding of the
  float32 accumulators and of the float16 weight maps is outside the model.
\<close>

text \<open>The Python exceptions the function can raise.\<close>

datatype error = FileNotFoundError | ValueError | ZeroDivisionError | TypeError

text \<open>
  A two-dimensional numpy array: its shape and its cells. Only the cells inside
  the shape are part of the array.
\<close>

record array2 =
  nrows :: nat
  ncols :: nat
  cell :: "nat \<Rightarrow> nat \<Rightarrow> real"

text \<open>
  An opened patch: band 1 (\<^verbatim>\<open>src.read(1)\<close>), the scale and origin terms of
  \<^verbatim>\<open>src.transform\<close> (so that \<^verbatim>\<open>src.transform * (0, 0)\<close> is
  \<open>(transform_c, transform_f)\<close>), and \<^verbatim>\<open>src.bounds\<close>.
\<close>

record patch =
  data :: array2
  transform_a :: real
  transform_e :: real
  transform_c :: real
  transform_f :: real
  bounds_left :: real
  bounds_bottom :: real
  bounds_right :: real
  bounds_top :: real

section \<open>Weight maps\<close>

text \<open>\<^verbatim>\<open>np.ones((h, w))\<close> and \<^verbatim>\<open>np.zeros((h, w))\<close>.\<close>

definition np_ones :: "nat \<Rightarrow> nat \<Rightarrow> array2" where
  "np_ones h w = \<lparr>nrows = h, ncols = w, cell = (\<lambda>i j. 1)\<rparr>"

definition np_zeros :: "int \<Rightarrow> int \<Rightarrow> error + array2" where
  "np_zeros h w =
     (if h < 0 \<or> w < 0 then Inl ValueError
      else Inr \<lparr>nrows = nat h, ncols = nat w, cell = (\<lambda>i j. 0)\<rparr>)"

text \<open>
  \<^verbatim>\<open>_distance_weight(h, w)\<close>: \<open>yy\<close> and \<open>xx\<close> are the row and column index of the
  cell, the distances are integers, and the quotient is floored at 0.
\<close>

definition distance_weight :: "nat \<Rightarrow> nat \<Rightarrow> array2" where
  "distance_weight h w =
     \<lparr>nrows = h, ncols = w,
      cell = (\<lambda>yy xx.
        let dist_y = min (int yy) (int h - 1 - int yy);
            dist_x = min (int xx) (int w - 1 - int xx);
            dist = min dist_y dist_x
        in max (real_of_int dist / (0.5 * real (min h w))) 0)\<rparr>"

text \<open>
  \<^verbatim>\<open>np.hanning(M)\<close>, entry \<open>k\<close> of its \<open>M\<close> entries: numpy returns \<open>[1]\<close> for
  \<open>M = 1\<close> and otherwise \<open>0.5 + 0.5 * cos(pi * n / (M - 1))\<close> over
  \<open>n = 1 - M, 3 - M, ..., M - 1\<close>.
\<close>

definition hanning :: "nat \<Rightarrow> nat \<Rightarrow> real" where
  "hanning M k =
     (if M = 1 then 1
      else 0.5 + 0.5 * cos (pi * (1 - real M + 2 * real k) / (real M - 1)))"

text \<open>\<^verbatim>\<open>_hann_weight(h, w)\<close>: the outer product of the two windows.\<close>

definition hann_weight :: "nat \<Rightarrow> nat \<Rightarrow> array2" where
  "hann_weight h w =
     \<lparr>nrows = h, ncols = w, cell = (\<lambda>i j. hanning h i * hanning w j)\<rparr>"

text \<open>The dispatch on \<^verbatim>\<open>blend\<close> inside the patch loop.\<close>

definition weight_map :: "string \<Rightarrow> nat \<Rightarrow> nat \<Rightarrow> error + array2" where
  "weight_map blend h w =
     (if blend = ''average'' then Inr (np_ones h w)
      else if blend = ''smooth'' then Inr (distance_weight h w)
      else if blend = ''hann'' then Inr (hann_weight h w)
      else Inl ValueError)"

section \<open>Python and numpy primitives\<close>

text \<open>Float division \<^verbatim>\<open>a / b\<close> of Python: a zero divisor raises.\<close>

definition py_truediv :: "real \<Rightarrow> real \<Rightarrow> error + real" where
  "py_truediv a b = (if b = 0 then Inl ZeroDivisionError else Inr (a / b))"

text \<open>The builtin \<^verbatim>\<open>round(x)\<close> of Python: to the nearest integer, ties to even.\<close>

definition py_round :: "real \<Rightarrow> int" where
  "py_round x =
     (let f = \<lfloor>x\<rfloor>; d = x - real_of_int f
      in if d < 1 / 2 then f
         else if 1 / 2 < d then f + 1
         else if even f then f else f + 1)"

text \<open>
  One end point of a slice \<^verbatim>\<open>a[start:stop]\<close> on an axis of length \<open>n\<close>: a
  negative index counts from the end, and the result is clamped to \<open>0..n\<close>.
\<close>

definition slice_index :: "nat \<Rightarrow> int \<Rightarrow> nat" where
  "slice_index n i = nat (if i < 0 then max (i + int n) 0 else min i (int n))"

text \<open>The first index and the length of \<^verbatim>\<open>a[start:stop]\<close>.\<close>

definition slice_bounds :: "nat \<Rightarrow> int \<Rightarrow> int \<Rightarrow> nat \<times> nat" where
  "slice_bounds n start stop =
     (let s = slice_index n start; e = slice_index n stop
      in (s, if s \<le> e then e - s else 0))"

text \<open>
  The operand of an in-place operation is broadcast to the shape of the view:
  along each axis its length is the view's, or 1.
\<close>

definition broadcast_ok :: "nat \<Rightarrow> nat \<Rightarrow> bool" where
  "broadcast_ok view_len operand_len \<longleftrightarrow> operand_len = view_len \<or> operand_len = 1"

definition broadcast_index :: "nat \<Rightarrow> nat \<Rightarrow> nat" where
  "broadcast_index operand_len i = (if operand_len = 1 then 0 else i)"

text \<open>
  \<^verbatim>\<open>a[row_off:row_off+h, col_off:col_off+w] += x\<close> with \<open>(h, w)\<close> the shape of
  \<open>x\<close>: the slices select a view of \<open>a\<close>, and the addition raises when \<open>x\<close> does
  not broadcast to the view's shape.
\<close>

definition iadd_window :: "array2 \<Rightarrow> int \<Rightarrow> int \<Rightarrow> array2 \<Rightarrow> error + array2" where
  "iadd_window a row_off col_off x =
     (let (r0, hv) = slice_bounds (nrows a) row_off (row_off + int (nrows x));
          (c0, wv) = slice_bounds (ncols a) col_off (col_off + int (ncols x))
      in if broadcast_ok hv (nrows x) \<and> broadcast_ok wv (ncols x)
         then Inr (a\<lparr>cell := (\<lambda>i j.
                if r0 \<le> i \<and> i < r0 + hv \<and> c0 \<le> j \<and> j < c0 + wv
                then cell a i j
                       + cell x (broadcast_index (nrows x) (i - r0))
                                (broadcast_index (ncols x) (j - c0))
                else cell a i j)\<rparr>)
         else Inl ValueError)"

text \<open>\<^verbatim>\<open>data * weight\<close>, two arrays of one shape.\<close>

definition np_multiply :: "array2 \<Rightarrow> array2 \<Rightarrow> array2" where
  "np_multiply x y =
     \<lparr>nrows = nrows x, ncols = ncols x, cell = (\<lambda>i j. cell x i j * cell y i j)\<rparr>"

section \<open>The canvas\<close>

record canvas =
  minx :: real
  miny :: real
  maxx :: real
  maxy :: real
  pixel_size_x :: real
  pixel_size_y :: real
  width :: int
  height :: int

text \<open>
  One round of the loop over \<^verbatim>\<open>src.bounds\<close>; the four variables start as
  \<^verbatim>\<open>None\<close> and are set together, in the order \<open>(minx, miny, maxx, maxy)\<close>.
\<close>

definition update_bounds ::
  "(real \<times> real \<times> real \<times> real) option \<Rightarrow> patch \<Rightarrow> (real \<times> real \<times> real \<times> real) option" where
  "update_bounds b p =
     (case b of
        None \<Rightarrow> Some (bounds_left p, bounds_bottom p, bounds_right p, bounds_top p)
      | Some (mnx, mny, mxx, mxy) \<Rightarrow>
          Some (min mnx (bounds_left p), min mny (bounds_bottom p),
                max mxx (bounds_right p), max mxy (bounds_top p)))"

text \<open>
  The reference metadata and the output bounds, up to \<^verbatim>\<open>width\<close> and
  \<^verbatim>\<open>height\<close>. The caller has checked that the list is not empty.
\<close>

definition canvas_geometry :: "patch list \<Rightarrow> error + canvas" where
  "canvas_geometry patch_files =
     (let ref = hd patch_files;
          psx = transform_a ref;
          psy = - transform_e ref
      in case foldl update_bounds None patch_files of
           None \<Rightarrow> Inl TypeError
         | Some (mnx, mny, mxx, mxy) \<Rightarrow>
             (case py_truediv (mxx - mnx) psx of
                Inl e \<Rightarrow> Inl e
              | Inr qx \<Rightarrow>
                  (case py_truediv (mxy - mny) psy of
                     Inl e \<Rightarrow> Inl e
                   | Inr qy \<Rightarrow>
                       Inr \<lparr>minx = mnx, miny = mny, maxx = mxx, maxy = mxy,
                            pixel_size_x = psx, pixel_size_y = psy,
                            width = \<lceil>qx\<rceil>, height = \<lceil>qy\<rceil>\<rparr>)))"

section \<open>Accumulation\<close>

text \<open>
  The body of the loop over the patches, on the pair \<open>(acc, weight_sum)\<close>.
\<close>

definition blend_patch ::
  "string \<Rightarrow> canvas \<Rightarrow> patch \<Rightarrow> array2 \<times> array2 \<Rightarrow> error + array2 \<times> array2" where
  "blend_patch blend cv p s =
     (let acc = fst s; weight_sum = snd s;
          h = nrows (data p); w = ncols (data p)
      in case weight_map blend h w of
           Inl e \<Rightarrow> Inl e
         | Inr weight \<Rightarrow>
             (case py_truediv (transform_c p - minx cv) (pixel_size_x cv) of
                Inl e \<Rightarrow> Inl e
              | Inr qx \<Rightarrow>
                  (case py_truediv (maxy cv - transform_f p) (pixel_size_y cv) of
                     Inl e \<Rightarrow> Inl e
                   | Inr qy \<Rightarrow>
                       (let col_off = py_round qx; row_off = py_round qy
                        in case iadd_window acc row_off col_off (np_multiply (data p) weight) of
                             Inl e \<Rightarrow> Inl e
                           | Inr acc' \<Rightarrow>
                               (case iadd_window weight_sum row_off col_off weight of
                                  Inl e \<Rightarrow> Inl e
                                | Inr weight_sum' \<Rightarrow> Inr (acc', weight_sum'))))))"

text \<open>The loop: it stops at the first patch that raises.\<close>

fun accumulate ::
  "string \<Rightarrow> canvas \<Rightarrow> patch list \<Rightarrow> array2 \<times> array2 \<Rightarrow> error + array2 \<times> array2" where
  "accumulate blend cv [] s = Inr s"
| "accumulate blend cv (p # ps) s =
     (case blend_patch blend cv p s of
        Inl e \<Rightarrow> Inl e
      | Inr s' \<Rightarrow> accumulate blend cv ps s')"

section \<open>Normalisation, mask and output type\<close>

text \<open>
  \<^verbatim>\<open>np.divide(acc, weight_sum, out=np.zeros_like(acc), where=(weight_sum > 0))\<close>:
  the quotient is computed where the condition holds, elsewhere the cell of
  \<^verbatim>\<open>out\<close> stays.
\<close>

definition normalize :: "array2 \<Rightarrow> array2 \<Rightarrow> array2" where
  "normalize acc weight_sum =
     \<lparr>nrows = nrows acc, ncols = ncols acc,
      cell = (\<lambda>i j. if 0 < cell weight_sum i j
                     then cell acc i j / cell weight_sum i j else 0)\<rparr>"

text \<open>
  \<^verbatim>\<open>result *= (mask_data == 1)\<close>, on the mask already resampled to the canvas
  grid (\<^verbatim>\<open>reproject\<close> belongs to rasterio).
\<close>

definition apply_mask :: "(nat \<Rightarrow> nat \<Rightarrow> 8 word) option \<Rightarrow> array2 \<Rightarrow> array2" where
  "apply_mask mask_file result =
     (case mask_file of
        None \<Rightarrow> result
      | Some mask_data \<Rightarrow>
          result\<lparr>cell := (\<lambda>i j. cell result i j * (if mask_data i j = 1 then 1 else 0))\<rparr>)"

text \<open>\<^verbatim>\<open>np.clip(x, lo, hi)\<close> on one cell.\<close>

definition np_clip :: "real \<Rightarrow> real \<Rightarrow> real \<Rightarrow> real" where
  "np_clip x lo hi = min (max x lo) hi"

text \<open>
  \<^verbatim>\<open>astype\<close> from float to an unsigned integer type drops the fraction; the
  word type keeps the low bits.
\<close>

definition truncate_real :: "real \<Rightarrow> int" where
  "truncate_real x = (if 0 \<le> x then \<lfloor>x\<rfloor> else \<lceil>x\<rceil>)"

definition astype_uint16 :: "real \<Rightarrow> 16 word" where
  "astype_uint16 x = word_of_int (truncate_real x)"

definition astype_uint8 :: "real \<Rightarrow> 8 word" where
  "astype_uint8 x = word_of_int (truncate_real x)"

datatype pixels =
  Float32 "nat \<Rightarrow> nat \<Rightarrow> real"
| UInt16 "nat \<Rightarrow> nat \<Rightarrow> 16 word"
| UInt8 "nat \<Rightarrow> nat \<Rightarrow> 8 word"

text \<open>The \<^verbatim>\<open>if\<close>/\<^verbatim>\<open>elif\<close> on \<^verbatim>\<open>dtype\<close>; there is no \<^verbatim>\<open>else\<close>.\<close>

definition convert_dtype :: "string \<Rightarrow> array2 \<Rightarrow> pixels" where
  "convert_dtype dtype result =
     (if dtype = ''uint16'' then UInt16 (\<lambda>i j. astype_uint16 (np_clip (cell result i j) 0 65535))
      else if dtype = ''uint8'' then UInt8 (\<lambda>i j. astype_uint8 (np_clip (cell result i j) 0 255))
      else Float32 (cell result))"

section \<open>The blend\<close>

text \<open>What is handed to the raster writer: the array and the metadata.\<close>

record raster =
  out_height :: int
  out_width :: int
  out_dtype :: string
  out_origin_x :: real
  out_origin_y :: real
  out_pixel_size_x :: real
  out_pixel_size_y :: real
  out_nodata :: int
  out_pixels :: pixels

text \<open>
  The part of the blend between the canvas and the normalised result: the two
  accumulators are allocated, every patch is added, and the sums are divided.
\<close>

definition blend_accumulators :: "string \<Rightarrow> patch list \<Rightarrow> error + canvas \<times> array2 \<times> array2" where
  "blend_accumulators blend patch_files =
     (case canvas_geometry patch_files of
        Inl e \<Rightarrow> Inl e
      | Inr cv \<Rightarrow>
          (case np_zeros (height cv) (width cv) of
             Inl e \<Rightarrow> Inl e
           | Inr acc \<Rightarrow>
               (case np_zeros (height cv) (width cv) of
                  Inl e \<Rightarrow> Inl e
                | Inr weight_sum \<Rightarrow>
                    (case accumulate blend cv patch_files (acc, weight_sum) of
                       Inl e \<Rightarrow> Inl e
                     | Inr s \<Rightarrow> Inr (cv, s)))))"

text \<open>
  \<^verbatim>\<open>blend_patches_to_raster\<close>, from its arguments to the array it writes.
  \<open>patch_files\<close> and \<open>patch_folder\<close> are \<^verbatim>\<open>None\<close> or the opened patches (for the
  folder: of its sorted \<^verbatim>\<open>.tif\<close> and \<^verbatim>\<open>.vrt\<close> files); \<open>mask_file\<close> is the resampled
  mask, if a mask file is given.
\<close>

definition blend_patches_to_raster ::
  "patch list option \<Rightarrow> patch list option \<Rightarrow> string \<Rightarrow> string
     \<Rightarrow> (nat \<Rightarrow> nat \<Rightarrow> 8 word) option \<Rightarrow> error + raster" where
  "blend_patches_to_raster patch_files patch_folder blend dtype mask_file =
     (case (case patch_files of
              Some fs \<Rightarrow> Inr fs
            | None \<Rightarrow> (case patch_folder of None \<Rightarrow> Inl ValueError | Some fs \<Rightarrow> Inr fs)) of
        Inl e \<Rightarrow> Inl e
      | Inr fs \<Rightarrow>
          if fs = [] then Inl FileNotFoundError
          else
            (case blend_accumulators blend fs of
               Inl e \<Rightarrow> Inl e
             | Inr (cv, acc, weight_sum) \<Rightarrow>
                 (let result = apply_mask mask_file (normalize acc weight_sum)
                  in Inr \<lparr>out_height = height cv, out_width = width cv,
                          out_dtype = dtype,
                          out_origin_x = minx cv, out_origin_y = maxy cv,
                          out_pixel_size_x = pixel_size_x cv,
                          out_pixel_size_y = pixel_size_y cv,
                          out_nodata = 0,
                          out_pixels = convert_dtype dtype result\<rparr>)))"

section \<open>Notions used in the statements\<close>

text \<open>
  The parts of \<open>iadd_window\<close>, named: whether the operand fits the view, the
  cells of the view, the operand's cell added at a cell of the view, and the
  array after the addition.
\<close>

definition fits :: "array2 \<Rightarrow> int \<Rightarrow> int \<Rightarrow> array2 \<Rightarrow> bool" where
  "fits a row_off col_off x \<longleftrightarrow>
     broadcast_ok (snd (slice_bounds (nrows a) row_off (row_off + int (nrows x)))) (nrows x)
     \<and> broadcast_ok (snd (slice_bounds (ncols a) col_off (col_off + int (ncols x)))) (ncols x)"

definition in_window :: "array2 \<Rightarrow> int \<Rightarrow> int \<Rightarrow> array2 \<Rightarrow> nat \<Rightarrow> nat \<Rightarrow> bool" where
  "in_window a row_off col_off x i j \<longleftrightarrow>
     (let (r0, hv) = slice_bounds (nrows a) row_off (row_off + int (nrows x));
          (c0, wv) = slice_bounds (ncols a) col_off (col_off + int (ncols x))
      in r0 \<le> i \<and> i < r0 + hv \<and> c0 \<le> j \<and> j < c0 + wv)"

definition view_value :: "array2 \<Rightarrow> int \<Rightarrow> int \<Rightarrow> array2 \<Rightarrow> nat \<Rightarrow> nat \<Rightarrow> real" where
  "view_value a row_off col_off x i j =
     cell x
       (broadcast_index (nrows x)
          (i - fst (slice_bounds (nrows a) row_off (row_off + int (nrows x)))))
       (broadcast_index (ncols x)
          (j - fst (slice_bounds (ncols a) col_off (col_off + int (ncols x)))))"

definition add_view :: "array2 \<Rightarrow> int \<Rightarrow> int \<Rightarrow> array2 \<Rightarrow> array2" where
  "add_view a row_off col_off x =
     a\<lparr>cell := (\<lambda>i j. if in_window a row_off col_off x i j
                        then cell a i j + view_value a row_off col_off x i j
                        else cell a i j)\<rparr>"

text \<open>The offsets \<^verbatim>\<open>row_off\<close> and \<^verbatim>\<open>col_off\<close> of a patch in a canvas.\<close>

definition row_offset :: "canvas \<Rightarrow> patch \<Rightarrow> int" where
  "row_offset cv p = py_round ((maxy cv - transform_f p) / pixel_size_y cv)"

definition col_offset :: "canvas \<Rightarrow> patch \<Rightarrow> int" where
  "col_offset cv p = py_round ((transform_c p - minx cv) / pixel_size_x cv)"

text \<open>The three blend modes.\<close>

definition known_blend :: "string \<Rightarrow> bool" where
  "known_blend blend \<longleftrightarrow> blend = ''average'' \<or> blend = ''smooth'' \<or> blend = ''hann''"

text \<open>A canvas cell lies in the window that the loop body addresses for a patch.\<close>

definition covers :: "canvas \<Rightarrow> array2 \<Rightarrow> patch \<Rightarrow> nat \<Rightarrow> nat \<Rightarrow> bool" where
  "covers cv a p i j \<longleftrightarrow> in_window a (row_offset cv p) (col_offset cv p) (data p) i j"

text \<open>
  The bounds that rasterio reports for a dataset whose transform has no rotation
  terms: \<open>(c, f + e * height, c + a * width, f)\<close>.
\<close>

definition north_up :: "patch \<Rightarrow> bool" where
  "north_up p \<longleftrightarrow>
     bounds_left p = transform_c p
     \<and> bounds_bottom p = transform_f p + transform_e p * real (nrows (data p))
     \<and> bounds_right p = transform_c p + transform_a p * real (ncols (data p))
     \<and> bounds_top p = transform_f p"

text \<open>
  Patches for the examples: a 2 x 2 patch of pixel size 1 with its upper left
  corner at \<open>(0, 2)\<close>; a patch of one row and two columns with pixels of
  height 2/5 lying on the bottom edge of the first; a 4 x 4 patch of pixel size
  1/2 over the extent of the first; and the first patch moved one pixel to the
  right.
\<close>

definition square_patch :: patch where
  "square_patch =
     \<lparr>data = \<lparr>nrows = 2, ncols = 2, cell = (\<lambda>i j. 5)\<rparr>,
      transform_a = 1, transform_e = - 1, transform_c = 0, transform_f = 2,
      bounds_left = 0, bounds_bottom = 0, bounds_right = 2, bounds_top = 2\<rparr>"

definition thin_patch :: patch where
  "thin_patch =
     \<lparr>data = \<lparr>nrows = 1, ncols = 2, cell = (\<lambda>i j. 9)\<rparr>,
      transform_a = 1, transform_e = - (2 / 5), transform_c = 0, transform_f = 2 / 5,
      bounds_left = 0, bounds_bottom = 0, bounds_right = 2, bounds_top = 2 / 5\<rparr>"

definition fine_patch :: patch where
  "fine_patch =
     \<lparr>data = \<lparr>nrows = 4, ncols = 4, cell = (\<lambda>i j. 3)\<rparr>,
      transform_a = 1 / 2, transform_e = - (1 / 2), transform_c = 0, transform_f = 2,
      bounds_left = 0, bounds_bottom = 0, bounds_right = 2, bounds_top = 2\<rparr>"

text \<open>The canvas of the first example patch.\<close>

definition square_canvas :: canvas where
  "square_canvas =
     \<lparr>minx = 0, miny = 0, maxx = 2, maxy = 2, pixel_size_x = 1, pixel_size_y = 1,
      width = 2, height = 2\<rparr>"

definition right_patch :: patch where
  "right_patch =
     \<lparr>data = \<lparr>nrows = 2, ncols = 2, cell = (\<lambda>i j. 7)\<rparr>,
      transform_a = 1, transform_e = - 1, transform_c = 1, transform_f = 2,
      bounds_left = 1, bounds_bottom = 0, bounds_right = 3, bounds_top = 2\<rparr>"

text \<open>
  One round of the patch loop on a result that may already be an exception: the
  loop of \<open>accumulate\<close> is the fold of this step.
\<close>

definition blend_step ::
  "string \<Rightarrow> canvas \<Rightarrow> patch \<Rightarrow> error + array2 \<times> array2 \<Rightarrow> error + array2 \<times> array2" where
  "blend_step blend cv p r = (case r of Inl e \<Rightarrow> Inl e | Inr s \<Rightarrow> blend_patch blend cv p s)"

text \<open>The normalised result of a blend, before mask and output type, and one of its cells.\<close>

definition normalized_blend :: "string \<Rightarrow> patch list \<Rightarrow> error + array2" where
  "normalized_blend blend patch_files =
     (case blend_accumulators blend patch_files of
        Inl e \<Rightarrow> Inl e
      | Inr (cv, acc, weight_sum) \<Rightarrow> Inr (normalize acc weight_sum))"

definition result_cell :: "error + array2 \<Rightarrow> nat \<Rightarrow> nat \<Rightarrow> real option" where
  "result_cell r i j = (case r of Inl e \<Rightarrow> None | Inr a \<Rightarrow> Some (cell a i j))"

section \<open>Properties of the weight maps\<close>

lemma hanning_range: "0 \<le> hanning M k \<and> hanning M k \<le> 1"
proof (cases "M = 1")
  case True
  then show ?thesis by (simp add: hanning_def)
next
  case False
  define t where "t = pi * (1 - real M + 2 * real k) / (real M - 1)"
  have "0 \<le> 0.5 + 0.5 * cos t \<and> 0.5 + 0.5 * cos t \<le> 1"
    using cos_ge_minus_one [of t] cos_le_one [of t] by linarith
  with False show ?thesis by (simp only: hanning_def t_def if_False)
qed

lemma hanning_first: "2 \<le> M \<Longrightarrow> hanning M 0 = 0"
proof -
  assume m: "2 \<le> M"
  then have ne: "real M - 1 \<noteq> 0" by simp
  have "pi * (1 - real M + 2 * real (0::nat)) / (real M - 1) = - pi"
    using ne by (simp add: field_simps)
  then have "cos (pi * (1 - real M + 2 * real (0::nat)) / (real M - 1)) = - 1"
    by simp
  with m show ?thesis by (simp add: hanning_def)
qed

lemma hanning_last: "2 \<le> M \<Longrightarrow> hanning M (M - 1) = 0"
proof -
  assume m: "2 \<le> M"
  then have ne: "real M - 1 \<noteq> 0" by simp
  have "real (M - 1) = real M - 1" using m by (simp add: of_nat_diff)
  then have "pi * (1 - real M + 2 * real (M - 1)) / (real M - 1) = pi"
    using ne by (simp add: field_simps)
  then have "cos (pi * (1 - real M + 2 * real (M - 1)) / (real M - 1)) = - 1"
    by simp
  with m show ?thesis by (simp add: hanning_def)
qed

lemma distance_cell:
  "cell (distance_weight h w) i j =
     max (real_of_int (min (min (int i) (int h - 1 - int i)) (min (int j) (int w - 1 - int j)))
            / (0.5 * real (min h w))) 0"
  by (simp add: distance_weight_def Let_def)

lemma distance_range:
  assumes "i < h" "j < w"
  shows "0 \<le> cell (distance_weight h w) i j \<and> cell (distance_weight h w) i j < 1"
proof -
  define d where "d = min (min (int i) (int h - 1 - int i)) (min (int j) (int w - 1 - int j))"
  define m where "m = min h w"
  have mpos: "0 < real m" using assms by (simp add: m_def)
  have "2 * d \<le> int m - 1" using assms by (auto simp: d_def m_def min_def)
  then have "2 * real_of_int d < real m"
    by (metis (mono_tags) add.commute less_add_one of_int_less_iff of_int_of_nat_eq of_int_mult of_int_numeral order_le_less_trans diff_add_cancel)
  then have "real_of_int d / (0.5 * real m) < 1" using mpos by (simp add: field_simps)
  then show ?thesis by (simp add: distance_cell d_def[symmetric] m_def[symmetric])
qed






lemma weight_map_average: "weight_map ''average'' h w = Inr (np_ones h w)"
  by (simp add: weight_map_def)

lemma weight_map_smooth: "weight_map ''smooth'' h w = Inr (distance_weight h w)"
  by (simp add: weight_map_def)

lemma weight_map_hann: "weight_map ''hann'' h w = Inr (hann_weight h w)"
  by (simp add: weight_map_def)

lemma hann_cell: "cell (hann_weight h w) i j = hanning h i * hanning w j"
  by (simp add: hann_weight_def)

lemma hann_range: "0 \<le> cell (hann_weight h w) i j \<and> cell (hann_weight h w) i j \<le> 1"
  using hanning_range [of h i] hanning_range [of w j]
  by (simp add: hann_cell mult_le_one)

lemma np_ones_simps [simp]:
  "nrows (np_ones h w) = h" "ncols (np_ones h w) = w" "cell (np_ones h w) i j = 1"
  by (simp_all add: np_ones_def)

lemma distance_shape [simp]:
  "nrows (distance_weight h w) = h" "ncols (distance_weight h w) = w"
  by (simp_all add: distance_weight_def)

lemma hann_shape [simp]:
  "nrows (hann_weight h w) = h" "ncols (hann_weight h w) = w"
  by (simp_all add: hann_weight_def)




text \<open>
  Claim C8, as the code has it. For each of the three modes every cell of the
  weight map lies in \<open>[0, 1]\<close>, and the map of the mode average is 1 everywhere.
  The Hann map is 0 on the first and last row when the patch has at least two
  rows, and on the first and last column when it has at least two columns: the
  window of length 1 is \<open>[1]\<close>.
\<close>

theorem weight_map_range:
  assumes "blend = ''average'' \<or> blend = ''smooth'' \<or> blend = ''hann''"
    and "i < h" and "j < w"
  shows "(\<exists>wt. weight_map blend h w = Inr wt \<and> nrows wt = h \<and> ncols wt = w
               \<and> 0 \<le> cell wt i j \<and> cell wt i j \<le> 1)
       \<and> (\<exists>wt. weight_map ''average'' h w = Inr wt \<and> cell wt i j = 1)
       \<and> weight_map ''hann'' h w = Inr (hann_weight h w)
       \<and> (2 \<le> h \<and> (i = 0 \<or> i = h - 1) \<longrightarrow> cell (hann_weight h w) i j = 0)
       \<and> (2 \<le> w \<and> (j = 0 \<or> j = w - 1) \<longrightarrow> cell (hann_weight h w) i j = 0)"
proof -
  consider "blend = ''average''" | "blend = ''smooth''" | "blend = ''hann''"
    using assms(1) by blast
  then have a: "\<exists>wt. weight_map blend h w = Inr wt \<and> nrows wt = h \<and> ncols wt = w
               \<and> 0 \<le> cell wt i j \<and> cell wt i j \<le> 1"
  proof cases
    case 1
    then show ?thesis by (simp only: weight_map_average) simp
  next
    case 2
    have "0 \<le> cell (distance_weight h w) i j \<and> cell (distance_weight h w) i j \<le> 1"
      using distance_range [OF assms(2,3)] by simp
    with 2 show ?thesis by (simp only: weight_map_smooth) simp
  next
    case 3
    with hann_range [of h w i j] show ?thesis by (simp only: weight_map_hann) simp
  qed
  have b: "\<exists>wt. weight_map ''average'' h w = Inr wt \<and> cell wt i j = 1"
    by (simp only: weight_map_average) simp
  have d: "2 \<le> h \<and> (i = 0 \<or> i = h - 1) \<longrightarrow> cell (hann_weight h w) i j = 0"
    using hanning_first [of h] hanning_last [of h] by (auto simp: hann_cell)
  have e: "2 \<le> w \<and> (j = 0 \<or> j = w - 1) \<longrightarrow> cell (hann_weight h w) i j = 0"
    using hanning_first [of w] hanning_last [of w] by (auto simp: hann_cell)
  show ?thesis using a b weight_map_hann d e by blast
qed

theorem weight_map_range_witness:
  "(0::nat) < 3 \<and> (1::nat) < 3 \<and> 2 \<le> (3::nat) \<and> cell (hann_weight 3 3) 0 1 = 0"
  using weight_map_range [of "''hann''" 0 3 1 3] by simp

theorem hann_border_counterexample:
  "cell (hann_weight 1 1) 0 0 \<noteq> 0"
  by (simp add: hann_cell hanning_def)

section \<open>Properties of normalisation and quantisation\<close>

lemma truncate_clip16: "uint (astype_uint16 (np_clip v 0 65535)) = \<lfloor>min (max v 0) 65535\<rfloor>"
proof -
  define c where "c = min (max v 0) (65535::real)"
  have c0: "0 \<le> c" and c1: "c \<le> 65535" by (simp_all add: c_def)
  have f0: "0 \<le> \<lfloor>c\<rfloor>" using c0 by simp
  have "\<lfloor>c\<rfloor> \<le> 65535" using c1 by (simp add: floor_le_iff) 
  then have f1: "\<lfloor>c\<rfloor> < 2 ^ 16" by simp
  have "uint (word_of_int \<lfloor>c\<rfloor> :: 16 word) = \<lfloor>c\<rfloor>"
    using f0 f1 by (simp add: uint_word_of_int)
  then show ?thesis using c0 by (simp add: astype_uint16_def np_clip_def truncate_real_def c_def)
qed

lemma truncate_clip8: "uint (astype_uint8 (np_clip v 0 255)) = \<lfloor>min (max v 0) 255\<rfloor>"
proof -
  define c where "c = min (max v 0) (255::real)"
  have c0: "0 \<le> c" and c1: "c \<le> 255" by (simp_all add: c_def)
  have f0: "0 \<le> \<lfloor>c\<rfloor>" using c0 by simp
  have "\<lfloor>c\<rfloor> \<le> 255" using c1 by (simp add: floor_le_iff) 
  then have f1: "\<lfloor>c\<rfloor> < 2 ^ 8" by simp
  have "uint (word_of_int \<lfloor>c\<rfloor> :: 8 word) = \<lfloor>c\<rfloor>"
    using f0 f1 by (simp add: uint_word_of_int)
  then show ?thesis using c0 by (simp add: astype_uint8_def np_clip_def truncate_real_def c_def)
qed

text \<open>
  Claim C9. With dtype uint16 a cell \<open>v\<close> becomes \<open>min (max v 0) 65535\<close> without its
  fraction, read as an unsigned 16-bit value, and with dtype uint8 it becomes
  \<open>min (max v 0) 255\<close>: the value saturates and never wraps. So 70000 gives 65535
  and -5 gives 0.
\<close>

theorem convert_dtype_saturates:
  "convert_dtype ''uint16'' r = UInt16 (\<lambda>i j. astype_uint16 (np_clip (cell r i j) 0 65535))
   \<and> convert_dtype ''uint8'' r = UInt8 (\<lambda>i j. astype_uint8 (np_clip (cell r i j) 0 255))
   \<and> uint (astype_uint16 (np_clip v 0 65535)) = \<lfloor>min (max v 0) 65535\<rfloor>
   \<and> uint (astype_uint8 (np_clip v 0 255)) = \<lfloor>min (max v 0) 255\<rfloor>
   \<and> astype_uint16 (np_clip 70000 0 65535) = 65535
   \<and> astype_uint16 (np_clip (- 5) 0 65535) = 0"
  using truncate_clip16 [of v] truncate_clip8 [of v]
  by (simp add: convert_dtype_def astype_uint16_def np_clip_def truncate_real_def)


section \<open>Properties of the canvas\<close>

lemma update_bounds_simps:
  "update_bounds None p = Some (bounds_left p, bounds_bottom p, bounds_right p, bounds_top p)"
  "update_bounds (Some (a, b, c, d)) p
     = Some (min a (bounds_left p), min b (bounds_bottom p),
             max c (bounds_right p), max d (bounds_top p))"
  by (simp_all add: update_bounds_def)

lemma foldl_update_bounds_Some:
  "foldl update_bounds (Some (a, b, c, d)) ps
     = Some (fold min (map bounds_left ps) a, fold min (map bounds_bottom ps) b,
             fold max (map bounds_right ps) c, fold max (map bounds_top ps) d)"
proof (induction ps arbitrary: a b c d)
  case Nil
  show ?case by simp
next
  case (Cons p ps)
  show ?case
    by (simp add: update_bounds_simps Cons.IH min.commute max.commute)
qed

lemma foldl_update_bounds_Cons:
  "foldl update_bounds None (p # ps)
     = Some (Min (bounds_left ` set (p # ps)), Min (bounds_bottom ` set (p # ps)),
             Max (bounds_right ` set (p # ps)), Max (bounds_top ` set (p # ps)))"
proof -
  have "foldl update_bounds None (p # ps)
          = foldl update_bounds
              (Some (bounds_left p, bounds_bottom p, bounds_right p, bounds_top p)) ps"
    by (simp add: update_bounds_simps)
  moreover have "Min (bounds_left ` set (p # ps)) = fold min (map bounds_left ps) (bounds_left p)"
    using Min.set_eq_fold [of "bounds_left p" "map bounds_left ps"] by simp
  moreover have "Min (bounds_bottom ` set (p # ps)) = fold min (map bounds_bottom ps) (bounds_bottom p)"
    using Min.set_eq_fold [of "bounds_bottom p" "map bounds_bottom ps"] by simp
  moreover have "Max (bounds_right ` set (p # ps)) = fold max (map bounds_right ps) (bounds_right p)"
    using Max.set_eq_fold [of "bounds_right p" "map bounds_right ps"] by simp
  moreover have "Max (bounds_top ` set (p # ps)) = fold max (map bounds_top ps) (bounds_top p)"
    using Max.set_eq_fold [of "bounds_top p" "map bounds_top ps"] by simp
  ultimately show ?thesis by (simp only: foldl_update_bounds_Some)
qed

lemma canvas_geometry_eq:
  assumes "ps \<noteq> []" and "transform_a (hd ps) \<noteq> 0" and "transform_e (hd ps) \<noteq> 0"
  shows "canvas_geometry ps =
     Inr \<lparr>minx = Min (bounds_left ` set ps), miny = Min (bounds_bottom ` set ps),
          maxx = Max (bounds_right ` set ps), maxy = Max (bounds_top ` set ps),
          pixel_size_x = transform_a (hd ps), pixel_size_y = - transform_e (hd ps),
          width = \<lceil>(Max (bounds_right ` set ps) - Min (bounds_left ` set ps))
                     / transform_a (hd ps)\<rceil>,
          height = \<lceil>(Max (bounds_top ` set ps) - Min (bounds_bottom ` set ps))
                     / (- transform_e (hd ps))\<rceil>\<rparr>"
proof -
  obtain p qs where ps: "ps = p # qs" using assms(1) by (cases ps) auto
  show ?thesis
    using assms(2,3) unfolding ps canvas_geometry_def Let_def foldl_update_bounds_Cons
    by (simp add: py_truediv_def)
qed

text \<open>
  Claim C7. For a non-empty list of patches whose reference patch has non-zero
  pixel sizes, the canvas width is \<open>ceil ((maxx - minx) / pixel_size_x)\<close> and the
  height is \<open>ceil ((maxy - miny) / pixel_size_y)\<close>, for the minimum and maximum of
  the bounds of all patches and the pixel sizes of the first patch.
\<close>

theorem canvas_size:
  assumes "ps \<noteq> []" and "transform_a (hd ps) \<noteq> 0" and "transform_e (hd ps) \<noteq> 0"
  shows "\<exists>cv. canvas_geometry ps = Inr cv
           \<and> pixel_size_x cv = transform_a (hd ps)
           \<and> pixel_size_y cv = - transform_e (hd ps)
           \<and> width cv = \<lceil>(Max (bounds_right ` set ps) - Min (bounds_left ` set ps))
                            / pixel_size_x cv\<rceil>
           \<and> height cv = \<lceil>(Max (bounds_top ` set ps) - Min (bounds_bottom ` set ps))
                            / pixel_size_y cv\<rceil>"
  unfolding canvas_geometry_eq [OF assms] by simp

theorem canvas_size_witness:
  "\<exists>cv. canvas_geometry [square_patch, thin_patch] = Inr cv
          \<and> width cv = 2 \<and> height cv = 2"
  using canvas_size [of "[square_patch, thin_patch]"]
  by (auto simp add: square_patch_def thin_patch_def)

section \<open>Properties of the in-place addition and of the patch loop\<close>

lemma iadd_window_alt:
  "iadd_window a ro co x
     = (if fits a ro co x then Inr (add_view a ro co x) else Inl ValueError)"
proof -
  obtain r0 hv where r: "slice_bounds (nrows a) ro (ro + int (nrows x)) = (r0, hv)"
    by (cases "slice_bounds (nrows a) ro (ro + int (nrows x))")
  obtain c0 wv where c: "slice_bounds (ncols a) co (co + int (ncols x)) = (c0, wv)"
    by (cases "slice_bounds (ncols a) co (co + int (ncols x))")
  show ?thesis
    by (simp add: iadd_window_def fits_def add_view_def in_window_def view_value_def r c
          cong del: if_weak_cong)
qed

lemma add_view_shape [simp]:
  "nrows (add_view a ro co x) = nrows a" "ncols (add_view a ro co x) = ncols a"
  by (simp_all add: add_view_def)

lemma add_view_cell:
  "cell (add_view a ro co x) i j
     = (if in_window a ro co x i j then cell a i j + view_value a ro co x i j
        else cell a i j)"
  by (simp add: add_view_def)

lemma fits_shape:
  "nrows a = nrows b \<Longrightarrow> ncols a = ncols b \<Longrightarrow> fits a ro co x = fits b ro co x"
  by (simp add: fits_def)

lemma in_window_shape:
  "nrows a = nrows b \<Longrightarrow> ncols a = ncols b
     \<Longrightarrow> in_window a ro co x i j = in_window b ro co x i j"
  by (simp add: in_window_def)

lemma view_value_shape:
  "nrows a = nrows b \<Longrightarrow> ncols a = ncols b
     \<Longrightarrow> view_value a ro co x i j = view_value b ro co x i j"
  by (simp add: view_value_def)

lemma array2_eqI:
  "nrows a = nrows b \<Longrightarrow> ncols a = ncols b \<Longrightarrow> (\<And>i j. cell a i j = cell b i j)
     \<Longrightarrow> a = (b::array2)"
  by (cases a, cases b) (simp add: fun_eq_iff)

lemma add_view_commute:
  "add_view (add_view a ro co x) ro' co' y = add_view (add_view a ro' co' y) ro co x"
proof (rule array2_eqI)
  fix i j
  have 1: "in_window (add_view a ro co x) ro' co' y i j = in_window a ro' co' y i j"
    by (rule in_window_shape) simp_all
  have 2: "in_window (add_view a ro' co' y) ro co x i j = in_window a ro co x i j"
    by (rule in_window_shape) simp_all
  have 3: "view_value (add_view a ro co x) ro' co' y i j = view_value a ro' co' y i j"
    by (rule view_value_shape) simp_all
  have 4: "view_value (add_view a ro' co' y) ro co x i j = view_value a ro co x i j"
    by (rule view_value_shape) simp_all
  show "cell (add_view (add_view a ro co x) ro' co' y) i j
          = cell (add_view (add_view a ro' co' y) ro co x) i j"
    by (simp add: add_view_cell 1 2 3 4)
qed simp_all

lemma blend_patch_alt:
  "blend_patch blend cv p (acc, ws) =
     (case weight_map blend (nrows (data p)) (ncols (data p)) of
        Inl e \<Rightarrow> Inl e
      | Inr wt \<Rightarrow>
          if pixel_size_x cv = 0 \<or> pixel_size_y cv = 0 then Inl ZeroDivisionError
          else if fits acc (row_offset cv p) (col_offset cv p) (np_multiply (data p) wt)
                  \<and> fits ws (row_offset cv p) (col_offset cv p) wt
          then Inr (add_view acc (row_offset cv p) (col_offset cv p) (np_multiply (data p) wt),
                    add_view ws (row_offset cv p) (col_offset cv p) wt)
          else Inl ValueError)"
  by (simp add: blend_patch_def Let_def py_truediv_def iadd_window_alt row_offset_def
        col_offset_def split: sum.splits)

lemma weight_map_Inl:
  "weight_map blend h w = Inl e \<Longrightarrow> e = ValueError \<and> weight_map blend h' w' = Inl ValueError"
  by (simp add: weight_map_def split: if_splits)

lemma weight_map_Inr:
  "weight_map blend h w = Inr wt \<Longrightarrow> nrows wt = h \<and> ncols wt = w \<and> known_blend blend"
  by (auto simp add: weight_map_def known_blend_def np_ones_def distance_weight_def
        hann_weight_def split: if_splits)

lemma fits_add_view [simp]:
  "fits (add_view a ro co x) ro' co' y = fits a ro' co' y"
  by (rule fits_shape) (simp_all add: add_view_def)

lemma blend_step_simps:
  "blend_step blend cv p (Inl e) = Inl e"
  "blend_step blend cv p (Inr s) = blend_patch blend cv p s"
  by (simp_all add: blend_step_def)

lemma fold_step_Inl: "fold (blend_step blend cv) ps (Inl e) = Inl e"
  by (induction ps) (simp_all add: blend_step_simps)

lemma accumulate_fold: "accumulate blend cv ps s = fold (blend_step blend cv) ps (Inr s)"
proof (induction ps arbitrary: s)
  case Nil
  show ?case by simp
next
  case (Cons p ps)
  show ?case
  proof (cases "blend_patch blend cv p s")
    case (Inl e)
    then show ?thesis by (simp add: blend_step_simps fold_step_Inl)
  next
    case (Inr s')
    then show ?thesis by (simp add: blend_step_simps Cons.IH)
  qed
qed

lemma blend_patch_commute:
  "blend_step blend cv p (blend_step blend cv q (Inr (acc, ws)))
     = blend_step blend cv q (blend_step blend cv p (Inr (acc, ws)))"
proof (cases "weight_map blend (nrows (data p)) (ncols (data p))")
  case (Inl e)
  from weight_map_Inl [OF Inl, of "nrows (data q)" "ncols (data q)"]
  have q: "weight_map blend (nrows (data q)) (ncols (data q)) = Inl ValueError"
    and e: "e = ValueError" by simp_all
  show ?thesis by (simp add: blend_step_simps blend_patch_alt Inl q e)
next
  case (Inr wp)
  show ?thesis
  proof (cases "weight_map blend (nrows (data q)) (ncols (data q))")
    case (Inl e)
    from weight_map_Inl [OF Inl, of "nrows (data p)" "ncols (data p)"] Inr
    show ?thesis by simp
  next
    case q: (Inr wq)
    show ?thesis
      by (simp add: blend_step_simps blend_patch_alt Inr q
            add_view_commute [of _ "row_offset cv p" "col_offset cv p" _
                                   "row_offset cv q" "col_offset cv q"])
  qed
qed

lemma step_commute: "blend_step blend cv p \<circ> blend_step blend cv q = blend_step blend cv q \<circ> blend_step blend cv p"
proof (rule ext)
  fix r
  show "(blend_step blend cv p \<circ> blend_step blend cv q) r = (blend_step blend cv q \<circ> blend_step blend cv p) r"
  proof (cases r)
    case (Inl e)
    then show ?thesis by (simp add: blend_step_simps)
  next
    case (Inr s)
    then show ?thesis using blend_patch_commute [of blend cv p q "fst s" "snd s"] by simp
  qed
qed


lemma py_round_0 [simp]: "py_round 0 = 0"
  by (simp add: py_round_def)

lemma slice_bounds_full: "slice_bounds n 0 (int n) = (0, n)"
  by (simp add: slice_bounds_def slice_index_def)

lemma fits_full:
  "nrows a = nrows x \<Longrightarrow> ncols a = ncols x \<Longrightarrow> fits a 0 0 x"
  by (simp add: fits_def slice_bounds_full broadcast_ok_def)

lemma in_window_full:
  "nrows a = nrows x \<Longrightarrow> ncols a = ncols x
     \<Longrightarrow> in_window a 0 0 x i j \<longleftrightarrow> i < nrows x \<and> j < ncols x"
  by (simp add: in_window_def slice_bounds_full)

lemma view_value_full:
  "nrows a = nrows x \<Longrightarrow> ncols a = ncols x \<Longrightarrow> i < nrows x \<Longrightarrow> j < ncols x
     \<Longrightarrow> view_value a 0 0 x i j = cell x i j"
  by (auto simp add: view_value_def slice_bounds_full broadcast_index_def)

lemma np_multiply_simps [simp]:
  "nrows (np_multiply x y) = nrows x" "ncols (np_multiply x y) = ncols x"
  "cell (np_multiply x y) i j = cell x i j * cell y i j"
  by (simp_all add: np_multiply_def)

lemma np_zeros_nat: "np_zeros (int h) (int w) = Inr \<lparr>nrows = h, ncols = w, cell = (\<lambda>i j. 0)\<rparr>"
  by (simp add: np_zeros_def)

lemma canvas_single:
  assumes "north_up p" and "transform_a p \<noteq> 0" and "transform_e p \<noteq> 0"
  shows "canvas_geometry [p] =
     Inr \<lparr>minx = transform_c p,
          miny = transform_f p + transform_e p * real (nrows (data p)),
          maxx = transform_c p + transform_a p * real (ncols (data p)),
          maxy = transform_f p,
          pixel_size_x = transform_a p, pixel_size_y = - transform_e p,
          width = int (ncols (data p)), height = int (nrows (data p))\<rparr>"
proof -
  have w: "\<lceil>transform_a p * real (ncols (data p)) / transform_a p\<rceil> = int (ncols (data p))"
    using assms(2) by simp
  have "(- (transform_e p * real (nrows (data p)))) / (- transform_e p) = real (nrows (data p))"
    using assms(3) by simp
  then have h: "\<lceil>(- (transform_e p * real (nrows (data p)))) / (- transform_e p)\<rceil>
                  = int (nrows (data p))"
    by (simp only: ceiling_of_nat)
  show ?thesis
    using assms w h
    by (simp add: canvas_geometry_eq north_up_def)
qed

lemma canvas_geometry_mset:
  assumes "mset ps = mset qs"
    and "transform_a (hd ps) = transform_a (hd qs)"
    and "transform_e (hd ps) = transform_e (hd qs)"
  shows "canvas_geometry ps = canvas_geometry qs"
proof (cases ps)
  case Nil
  with assms(1) show ?thesis by simp
next
  case (Cons p ps')
  then have "qs \<noteq> []" using assms(1) by auto
  then obtain q qs' where qs: "qs = q # qs'" by (cases qs) auto
  have s: "set (p # ps') = set (q # qs')"
    using assms(1) mset_eq_setD unfolding Cons qs by blast
  have f: "foldl update_bounds None (p # ps') = foldl update_bounds None (q # qs')"
    unfolding foldl_update_bounds_Cons s ..
  show ?thesis
    using assms(2,3) unfolding Cons qs canvas_geometry_def f by simp
qed

lemma accumulate_mset:
  assumes "mset ps = mset qs"
  shows "accumulate blend cv ps s = accumulate blend cv qs s"
proof -
  have "fold (blend_step blend cv) ps = fold (blend_step blend cv) qs"
    using assms by (intro fold_multiset_equiv step_commute)
  then show ?thesis by (simp add: accumulate_fold)
qed

text \<open>
  Claim C6. The loop over the patches, on one canvas and from one pair of
  accumulators, gives the same result for every permutation of the patch list:
  the same two accumulators, or the same exception. The whole accumulation phase
  of the blend gives the same result too when the permuted list starts with a
  patch of the same pixel sizes, since the canvas takes them from the first patch.
\<close>

theorem accumulate_permutation:
  assumes "mset ps = mset qs"
  shows "accumulate blend cv ps s = accumulate blend cv qs s
       \<and> (transform_a (hd ps) = transform_a (hd qs)
            \<and> transform_e (hd ps) = transform_e (hd qs)
          \<longrightarrow> blend_accumulators blend ps = blend_accumulators blend qs)"
proof -
  have a: "\<And>c t. accumulate blend c ps t = accumulate blend c qs t"
    using assms by (rule accumulate_mset)
  have "blend_accumulators blend ps = blend_accumulators blend qs"
    if "transform_a (hd ps) = transform_a (hd qs)"
      and "transform_e (hd ps) = transform_e (hd qs)"
    unfolding blend_accumulators_def a canvas_geometry_mset [OF assms that] ..
  then show ?thesis using a by blast
qed

theorem accumulate_permutation_witness:
  "mset [square_patch, right_patch] = mset [right_patch, square_patch]
   \<and> blend_accumulators ''average'' [square_patch, right_patch]
       = blend_accumulators ''average'' [right_patch, square_patch]"
  using accumulate_permutation [of "[square_patch, right_patch]" "[right_patch, square_patch]"]
  by (simp add: square_patch_def right_patch_def)

section \<open>A single patch\<close>

lemma known_blend_weight_map:
  assumes "known_blend blend"
  shows "\<exists>wt. weight_map blend h w = Inr wt \<and> nrows wt = h \<and> ncols wt = w"
proof -
  consider "blend = ''average''" | "blend = ''smooth''" | "blend = ''hann''"
    using assms unfolding known_blend_def by blast
  then show ?thesis
  proof cases
    case 1
    then show ?thesis by (simp only: weight_map_average) simp
  next
    case 2
    then show ?thesis by (simp only: weight_map_smooth) simp
  next
    case 3
    then show ?thesis by (simp only: weight_map_hann) simp
  qed
qed

lemma blend_accumulators_single:
  assumes "north_up p" and "transform_a p \<noteq> 0" and "transform_e p \<noteq> 0"
    and wt: "weight_map blend (nrows (data p)) (ncols (data p)) = Inr wt"
  shows "\<exists>cv. blend_accumulators blend [p] =
     Inr (cv,
          add_view \<lparr>nrows = nrows (data p), ncols = ncols (data p), cell = (\<lambda>i j. 0)\<rparr> 0 0
            (np_multiply (data p) wt),
          add_view \<lparr>nrows = nrows (data p), ncols = ncols (data p), cell = (\<lambda>i j. 0)\<rparr> 0 0 wt)"
proof -
  define z where "z = \<lparr>nrows = nrows (data p), ncols = ncols (data p), cell = (\<lambda>i j. 0::real)\<rparr>"
  define cv where "cv = \<lparr>minx = transform_c p,
          miny = transform_f p + transform_e p * real (nrows (data p)),
          maxx = transform_c p + transform_a p * real (ncols (data p)),
          maxy = transform_f p,
          pixel_size_x = transform_a p, pixel_size_y = - transform_e p,
          width = int (ncols (data p)), height = int (nrows (data p))\<rparr>"
  have c: "canvas_geometry [p] = Inr cv"
    unfolding cv_def using assms(1-3) by (rule canvas_single)
  have ro: "row_offset cv p = 0" by (simp add: row_offset_def cv_def)
  have co: "col_offset cv p = 0" by (simp add: col_offset_def cv_def)
  have ps: "pixel_size_x cv \<noteq> 0" "pixel_size_y cv \<noteq> 0"
    using assms(2,3) by (simp_all add: cv_def)
  have sh: "nrows wt = nrows (data p)" "ncols wt = ncols (data p)"
    using weight_map_Inr [OF wt] by simp_all
  have f1: "fits z 0 0 (np_multiply (data p) wt)"
    by (rule fits_full) (simp_all add: z_def)
  have f2: "fits z 0 0 wt"
    by (rule fits_full) (simp_all add: z_def sh)
  have b: "blend_patch blend cv p (z, z)
             = Inr (add_view z 0 0 (np_multiply (data p) wt), add_view z 0 0 wt)"
    using ps f1 f2 by (simp add: blend_patch_alt wt ro co)
  have zz: "np_zeros (height cv) (width cv) = Inr z"
    by (simp add: cv_def z_def np_zeros_nat)
  have "blend_accumulators blend [p]
          = Inr (cv, add_view z 0 0 (np_multiply (data p) wt), add_view z 0 0 wt)"
    by (simp add: blend_accumulators_def c zz b)
  then show ?thesis unfolding z_def by blast
qed


lemma square_patch_simps:
  "north_up square_patch" "transform_a square_patch = 1" "transform_e square_patch = - 1"
  "nrows (data square_patch) = 2" "ncols (data square_patch) = 2"
  "cell (data square_patch) i j = 5"
  by (simp_all add: square_patch_def north_up_def)





section \<open>Hann windows of length two\<close>

lemma hanning_two: "k < 2 \<Longrightarrow> hanning 2 k = 0"
proof -
  assume "k < 2"
  then consider "k = 0" | "k = 2 - 1" by (cases k) auto
  then show ?thesis
  proof cases
    case 1
    then show ?thesis using hanning_first [of 2] by simp
  next
    case 2
    then show ?thesis using hanning_last [of 2] by simp
  qed
qed

lemma hann_two_zero:
  assumes "h = 2 \<or> w = 2" and "i < h" and "j < w"
  shows "cell (hann_weight h w) i j = 0"
  using assms hanning_two [of i] hanning_two [of j] by (auto simp add: hann_cell)

lemma view_value_in_range:
  assumes "fits a ro co x" and "in_window a ro co x i j"
  shows "\<exists>i' j'. i' < nrows x \<and> j' < ncols x \<and> view_value a ro co x i j = cell x i' j'"
proof -
  obtain r0 hv where r: "slice_bounds (nrows a) ro (ro + int (nrows x)) = (r0, hv)"
    by (cases "slice_bounds (nrows a) ro (ro + int (nrows x))")
  obtain c0 wv where c: "slice_bounds (ncols a) co (co + int (ncols x)) = (c0, wv)"
    by (cases "slice_bounds (ncols a) co (co + int (ncols x))")
  have f: "broadcast_ok hv (nrows x)" "broadcast_ok wv (ncols x)"
    using assms(1) by (simp_all add: fits_def r c)
  have w: "r0 \<le> i" "i < r0 + hv" "c0 \<le> j" "j < c0 + wv"
    using assms(2) by (simp_all add: in_window_def r c)
  have 1: "broadcast_index (nrows x) (i - r0) < nrows x"
    using f(1) w(1,2) by (auto simp add: broadcast_ok_def broadcast_index_def)
  have 2: "broadcast_index (ncols x) (j - c0) < ncols x"
    using f(2) w(3,4) by (auto simp add: broadcast_ok_def broadcast_index_def)
  have "view_value a ro co x i j
          = cell x (broadcast_index (nrows x) (i - r0)) (broadcast_index (ncols x) (j - c0))"
    by (simp add: view_value_def r c)
  with 1 2 show ?thesis by blast
qed

lemma add_view_zero:
  assumes "fits a ro co x" and "\<And>i j. i < nrows x \<Longrightarrow> j < ncols x \<Longrightarrow> cell x i j = 0"
  shows "add_view a ro co x = a"
proof (rule array2_eqI)
  fix i j
  show "cell (add_view a ro co x) i j = cell a i j"
  proof (cases "in_window a ro co x i j")
    case True
    from view_value_in_range [OF assms(1) True] assms(2)
    have "view_value a ro co x i j = 0" by auto
    with True show ?thesis by (simp add: add_view_cell)
  next
    case False
    then show ?thesis by (simp add: add_view_cell)
  qed
qed simp_all

lemma fits_np_multiply [simp]: "fits a ro co (np_multiply x y) = fits a ro co x"
  by (simp add: fits_def)

lemma blend_patch_hann_two:
  assumes "nrows (data p) = 2 \<or> ncols (data p) = 2"
    and "pixel_size_x cv \<noteq> 0" and "pixel_size_y cv \<noteq> 0"
  shows "blend_patch ''hann'' cv p (acc, ws)
           = (if fits acc (row_offset cv p) (col_offset cv p) (data p)
                 \<and> fits ws (row_offset cv p) (col_offset cv p) (data p)
              then Inr (acc, ws) else Inl ValueError)"
proof -
  define wt where "wt = hann_weight (nrows (data p)) (ncols (data p))"
  have z: "\<And>i j. i < nrows (data p) \<Longrightarrow> j < ncols (data p) \<Longrightarrow> cell wt i j = 0"
    unfolding wt_def using assms(1) by (rule hann_two_zero)
  have sh: "nrows wt = nrows (data p)" "ncols wt = ncols (data p)"
    by (simp_all add: wt_def)
  have fw: "fits ws (row_offset cv p) (col_offset cv p) wt
              = fits ws (row_offset cv p) (col_offset cv p) (data p)"
    by (simp add: fits_def sh)
  have a: "add_view acc (row_offset cv p) (col_offset cv p) (np_multiply (data p) wt) = acc"
    if "fits acc (row_offset cv p) (col_offset cv p) (data p)"
    using that z by (intro add_view_zero) simp_all
  have w: "add_view ws (row_offset cv p) (col_offset cv p) wt = ws"
    if "fits ws (row_offset cv p) (col_offset cv p) (data p)"
    using that z by (intro add_view_zero) (simp_all add: fw sh)
  show ?thesis
    using assms(2,3) a w
    by (simp add: blend_patch_alt weight_map_hann wt_def [symmetric] fw)
qed

lemma blend_patch_shape:
  assumes "blend_patch blend cv p (acc, ws) = Inr (acc', ws')"
  shows "nrows acc' = nrows acc \<and> ncols acc' = ncols acc
       \<and> nrows ws' = nrows ws \<and> ncols ws' = ncols ws"
  using assms
  by (auto simp add: blend_patch_alt split: sum.splits if_splits)

lemma blend_patch_outside:
  assumes "blend_patch blend cv p (acc, ws) = Inr (acc', ws')"
    and "nrows ws = nrows acc" and "ncols ws = ncols acc"
    and "\<not> covers cv acc p i j"
  shows "cell acc' i j = cell acc i j \<and> cell ws' i j = cell ws i j"
proof -
  obtain wt where wt: "weight_map blend (nrows (data p)) (ncols (data p)) = Inr wt"
    using assms(1) by (cases "weight_map blend (nrows (data p)) (ncols (data p))")
      (simp_all add: blend_patch_alt)
  have sh: "nrows wt = nrows (data p)" "ncols wt = ncols (data p)"
    using weight_map_Inr [OF wt] by simp_all
  have r: "acc' = add_view acc (row_offset cv p) (col_offset cv p) (np_multiply (data p) wt)"
     "ws' = add_view ws (row_offset cv p) (col_offset cv p) wt"
    using assms(1) by (simp_all add: blend_patch_alt wt split: if_splits)
  have n1: "\<not> in_window acc (row_offset cv p) (col_offset cv p) (np_multiply (data p) wt) i j"
    using assms(4) by (simp add: covers_def in_window_def)
  have n2: "\<not> in_window ws (row_offset cv p) (col_offset cv p) wt i j"
    using assms(4) by (simp add: covers_def in_window_def sh assms(2,3))
  show ?thesis by (simp add: r add_view_cell n1 n2)
qed

lemma covers_shape:
  "nrows a = nrows b \<Longrightarrow> ncols a = ncols b \<Longrightarrow> covers cv a p i j = covers cv b p i j"
  by (simp add: covers_def in_window_def)

lemma accumulate_hann_two:
  assumes "accumulate ''hann'' cv ps (acc, ws) = Inr (acc', ws')"
    and "nrows ws = nrows acc" and "ncols ws = ncols acc"
    and "\<And>q. q \<in> set ps \<Longrightarrow> covers cv acc q i j
            \<Longrightarrow> nrows (data q) = 2 \<or> ncols (data q) = 2"
  shows "cell acc' i j = cell acc i j \<and> cell ws' i j = cell ws i j"
  using assms
proof (induction ps arbitrary: acc ws)
  case Nil
  then show ?case by simp
next
  case (Cons p ps)
  obtain a1 w1 where s1: "blend_patch ''hann'' cv p (acc, ws) = Inr (a1, w1)"
    and rest: "accumulate ''hann'' cv ps (a1, w1) = Inr (acc', ws')"
    using Cons.prems(1) by (auto split: sum.splits)
  have sh: "nrows a1 = nrows acc" "ncols a1 = ncols acc" "nrows w1 = nrows ws" "ncols w1 = ncols ws"
    using blend_patch_shape [OF s1] by simp_all
  have ps: "pixel_size_x cv \<noteq> 0" "pixel_size_y cv \<noteq> 0"
    using s1 by (auto simp add: blend_patch_alt weight_map_hann split: if_splits)
  have step: "cell a1 i j = cell acc i j \<and> cell w1 i j = cell ws i j"
  proof (cases "covers cv acc p i j")
    case True
    then have "nrows (data p) = 2 \<or> ncols (data p) = 2" using Cons.prems(4) by simp
    from blend_patch_hann_two [OF this ps, of acc ws] s1
    show ?thesis by (simp split: if_splits)
  next
    case False
    with s1 Cons.prems(2,3) show ?thesis by (intro blend_patch_outside)
  qed
  have "cell acc' i j = cell a1 i j \<and> cell ws' i j = cell w1 i j"
  proof (rule Cons.IH [OF rest])
    show "nrows w1 = nrows a1" "ncols w1 = ncols a1" using sh Cons.prems(2,3) by simp_all
    fix q assume "q \<in> set ps" "covers cv a1 q i j"
    then show "nrows (data q) = 2 \<or> ncols (data q) = 2"
      using Cons.prems(4) [of q] covers_shape [of a1 acc cv q i j] sh by simp
  qed
  with step show ?case by simp
qed

lemma square_canvas_simps:
  "pixel_size_x square_canvas = 1" "pixel_size_y square_canvas = 1"
  "minx square_canvas = 0" "maxy square_canvas = 2"
  "width square_canvas = 2" "height square_canvas = 2"
  by (simp_all add: square_canvas_def)

lemma square_patch_offsets:
  "row_offset square_canvas square_patch = 0" "col_offset square_canvas square_patch = 0"
  by (simp_all add: row_offset_def col_offset_def square_canvas_def square_patch_def)


text \<open>
  Claim C10. In the mode hann a patch with two rows or two columns has a weight
  map that is zero at every cell. Adding such a patch either raises (its shape
  does not fit the view) or leaves both accumulators as they are, and a pixel
  that only such patches cover keeps its sums through the whole loop; with a
  weight sum of 0 it normalises to 0.
\<close>

theorem hann_length_two:
  assumes "pixel_size_x cv \<noteq> 0" and "pixel_size_y cv \<noteq> 0"
    and "nrows ws = nrows acc" and "ncols ws = ncols acc"
  shows "(h = 2 \<or> w = 2 \<longrightarrow> (\<forall>i<h. \<forall>j<w. cell (hann_weight h w) i j = 0))
       \<and> (nrows (data p) = 2 \<or> ncols (data p) = 2 \<longrightarrow>
            blend_patch ''hann'' cv p (acc, ws)
              = (if fits acc (row_offset cv p) (col_offset cv p) (data p)
                 then Inr (acc, ws) else Inl ValueError))
       \<and> (accumulate ''hann'' cv ps (acc, ws) = Inr (acc', ws')
            \<and> (\<forall>q\<in>set ps. covers cv acc q i j \<longrightarrow> nrows (data q) = 2 \<or> ncols (data q) = 2)
          \<longrightarrow> cell acc' i j = cell acc i j \<and> cell ws' i j = cell ws i j
              \<and> (cell ws i j = 0 \<longrightarrow> cell (normalize acc' ws') i j = 0))"
proof -
  have 1: "h = 2 \<or> w = 2 \<longrightarrow> (\<forall>i<h. \<forall>j<w. cell (hann_weight h w) i j = 0)"
    using hann_two_zero [of h w] by blast
  have f: "fits ws (row_offset cv p) (col_offset cv p) (data p)
             = fits acc (row_offset cv p) (col_offset cv p) (data p)"
    using assms(3,4) by (rule fits_shape)
  have 2: "nrows (data p) = 2 \<or> ncols (data p) = 2 \<longrightarrow>
            blend_patch ''hann'' cv p (acc, ws)
              = (if fits acc (row_offset cv p) (col_offset cv p) (data p)
                 then Inr (acc, ws) else Inl ValueError)"
    using blend_patch_hann_two [OF _ assms(1,2), of p acc ws] by (simp add: f)
  have 3: "cell acc' i j = cell acc i j \<and> cell ws' i j = cell ws i j
              \<and> (cell ws i j = 0 \<longrightarrow> cell (normalize acc' ws') i j = 0)"
    if a: "accumulate ''hann'' cv ps (acc, ws) = Inr (acc', ws')"
      and c: "\<forall>q\<in>set ps. covers cv acc q i j \<longrightarrow> nrows (data q) = 2 \<or> ncols (data q) = 2"
  proof -
    have "cell acc' i j = cell acc i j \<and> cell ws' i j = cell ws i j"
      using a assms(3,4) c by (intro accumulate_hann_two [of cv ps]) blast+
    then show ?thesis by (simp add: normalize_def)
  qed
  show ?thesis using 1 2 3 by blast
qed


theorem hann_length_two_witness:
  "pixel_size_x square_canvas \<noteq> 0 \<and> nrows (data square_patch) = 2
   \<and> cell (hann_weight 2 2) 1 1 = 0
   \<and> covers square_canvas \<lparr>nrows = 2, ncols = 2, cell = (\<lambda>i j. 0)\<rparr> square_patch 0 0
   \<and> blend_patch ''hann'' square_canvas square_patch
        (\<lparr>nrows = 2, ncols = 2, cell = (\<lambda>i j. 0)\<rparr>, \<lparr>nrows = 2, ncols = 2, cell = (\<lambda>i j. 0)\<rparr>)
       = Inr (\<lparr>nrows = 2, ncols = 2, cell = (\<lambda>i j. 0)\<rparr>, \<lparr>nrows = 2, ncols = 2, cell = (\<lambda>i j. 0)\<rparr>)
   \<and> accumulate ''hann'' square_canvas [square_patch]
        (\<lparr>nrows = 2, ncols = 2, cell = (\<lambda>i j. 0)\<rparr>, \<lparr>nrows = 2, ncols = 2, cell = (\<lambda>i j. 0)\<rparr>)
       = Inr (\<lparr>nrows = 2, ncols = 2, cell = (\<lambda>i j. 0)\<rparr>, \<lparr>nrows = 2, ncols = 2, cell = (\<lambda>i j. 0)\<rparr>)
   \<and> cell (normalize \<lparr>nrows = 2, ncols = 2, cell = (\<lambda>i j. 0)\<rparr>
               \<lparr>nrows = 2, ncols = 2, cell = (\<lambda>i j. 0)\<rparr>) 0 0 = 0"
  using hann_length_two [of square_canvas "\<lparr>nrows = 2, ncols = 2, cell = (\<lambda>i j. 0)\<rparr>"
      "\<lparr>nrows = 2, ncols = 2, cell = (\<lambda>i j. 0)\<rparr>" 2 2 square_patch "[square_patch]"
      "\<lparr>nrows = 2, ncols = 2, cell = (\<lambda>i j. 0)\<rparr>" "\<lparr>nrows = 2, ncols = 2, cell = (\<lambda>i j. 0)\<rparr>" 0 0]
  by (simp add: square_canvas_simps square_patch_simps square_patch_offsets fits_full
        covers_def in_window_full)

section \<open>Patches that do not fit the canvas\<close>

text \<open>A negative offset counts from the end of the axis, as in any Python slice.\<close>

lemma negative_offset_wraps: "slice_bounds 5 (- 3) (- 3 + int 2) = (2, 2)"
  by (simp add: slice_bounds_def slice_index_def)

lemma slice_overflow_not_ok:
  assumes "0 \<le> off" and "int n < off + int h" and "2 \<le> h"
  shows "\<not> broadcast_ok (snd (slice_bounds n off (off + int h))) h"
proof -
  have s: "slice_index n off = min (nat off) n"
    using assms(1) by (simp add: slice_index_def min_def) linarith
  have e: "slice_index n (off + int h) = n"
    using assms(1,2) by (simp add: slice_index_def min_def)
  have "snd (slice_bounds n off (off + int h)) = n - min (nat off) n"
    by (simp add: slice_bounds_def s e Let_def)
  moreover have "n - min (nat off) n < h" using assms by (simp add: min_def) linarith
  ultimately show ?thesis using assms(3) by (simp add: broadcast_ok_def)
qed

lemma overflow_not_fits:
  assumes "0 \<le> ro" and "0 \<le> co"
    and "(int (nrows a) < ro + int (nrows x) \<and> 2 \<le> nrows x)
         \<or> (int (ncols a) < co + int (ncols x) \<and> 2 \<le> ncols x)"
  shows "\<not> fits a ro co x"
  using assms slice_overflow_not_ok [of ro "nrows a" "nrows x"]
    slice_overflow_not_ok [of co "ncols a" "ncols x"]
  by (auto simp add: fits_def)

lemma blend_patch_overflow:
  assumes "known_blend blend" and "pixel_size_x cv \<noteq> 0" and "pixel_size_y cv \<noteq> 0"
    and "0 \<le> row_offset cv p" and "0 \<le> col_offset cv p"
    and "(int (nrows acc) < row_offset cv p + int (nrows (data p)) \<and> 2 \<le> nrows (data p))
         \<or> (int (ncols acc) < col_offset cv p + int (ncols (data p)) \<and> 2 \<le> ncols (data p))"
  shows "blend_patch blend cv p (acc, ws) = Inl ValueError"
proof -
  obtain wt where wt: "weight_map blend (nrows (data p)) (ncols (data p)) = Inr wt"
    using known_blend_weight_map [OF assms(1)] by blast
  have "\<not> fits acc (row_offset cv p) (col_offset cv p) (data p)"
    using assms(4,5,6) by (rule overflow_not_fits)
  then show ?thesis using assms(2,3) by (simp add: blend_patch_alt wt)
qed

lemma accumulate_member_fails:
  assumes "p \<in> set ps" and "blend_patch blend cv p s = Inl e"
  shows "accumulate blend cv ps s = Inl e"
proof -
  have "mset ps = mset (p # remove1 p ps)" using assms(1) by simp
  then have "accumulate blend cv ps s = accumulate blend cv (p # remove1 p ps) s"
    by (rule accumulate_mset)
  then show ?thesis using assms(2) by simp
qed

lemma canvas_geometry_pixel_sizes:
  assumes "canvas_geometry ps = Inr cv"
  shows "pixel_size_x cv \<noteq> 0 \<and> pixel_size_y cv \<noteq> 0"
  using assms
  by (auto simp add: canvas_geometry_def Let_def py_truediv_def
        split: option.splits prod.splits if_splits)

lemma py_round_8_5: "py_round (8 / 5) = 2"
proof -
  have "\<lfloor>8 / 5 :: real\<rfloor> = 1" by simp
  then show ?thesis by (simp add: py_round_def Let_def)
qed

lemma canvas_square_fine: "canvas_geometry [square_patch, fine_patch] = Inr square_canvas"
  by (simp add: canvas_geometry_eq square_patch_def fine_patch_def square_canvas_def)

lemma canvas_square_thin: "canvas_geometry [square_patch, thin_patch] = Inr square_canvas"
  by (simp add: canvas_geometry_eq square_patch_def thin_patch_def square_canvas_def)

lemma fine_patch_offsets:
  "row_offset square_canvas fine_patch = 0" "col_offset square_canvas fine_patch = 0"
  by (simp_all add: row_offset_def col_offset_def square_canvas_def fine_patch_def)

lemma thin_patch_offsets:
  "row_offset square_canvas thin_patch = 2" "col_offset square_canvas thin_patch = 0"
proof -
  have "(2 - 2 / 5 :: real) = 8 / 5" by simp
  then show "row_offset square_canvas thin_patch = 2"
    by (simp add: row_offset_def square_canvas_def thin_patch_def py_round_8_5)
  show "col_offset square_canvas thin_patch = 0"
    by (simp add: col_offset_def square_canvas_def thin_patch_def)
qed

lemma thin_patch_simps:
  "nrows (data thin_patch) = 1" "ncols (data thin_patch) = 2"
  by (simp_all add: thin_patch_def)

lemma slice_bounds_2_2_3: "slice_bounds 2 2 3 = (2, 0)"
  by (simp add: slice_bounds_def slice_index_def)

lemma slice_bounds_2_0_2: "slice_bounds 2 0 2 = (0, 2)"
  by (simp add: slice_bounds_def slice_index_def)

lemma thin_fits:
  assumes "nrows a = 2" and "ncols a = 2" and "nrows x = 1" and "ncols x = 2"
  shows "fits a 2 0 x" and "\<not> in_window a 2 0 x 1 0"
  using assms
  by (simp_all add: fits_def in_window_def slice_bounds_2_2_3 slice_bounds_2_0_2 broadcast_ok_def)


text \<open>
  Claim C1, as the code has it. There is no check of the geometry: the in-place
  addition of numpy raises \<open>ValueError\<close> when the patch does not broadcast to
  the view that the slices select. For a patch with non-negative offsets that
  reaches beyond the canvas height with at least two rows, or beyond the canvas
  width with at least two columns, the blend raises \<open>ValueError\<close>. A step that
  succeeds keeps the shape of both accumulators.
\<close>

theorem overflowing_patch_fails:
  assumes "canvas_geometry ps = Inr cv" and "known_blend blend" and "p \<in> set ps"
    and "0 \<le> row_offset cv p" and "0 \<le> col_offset cv p"
    and "(height cv < row_offset cv p + int (nrows (data p)) \<and> 2 \<le> nrows (data p))
         \<or> (width cv < col_offset cv p + int (ncols (data p)) \<and> 2 \<le> ncols (data p))"
  shows "blend_accumulators blend ps = Inl ValueError
       \<and> (\<forall>q acc ws acc' ws'. blend_patch blend cv q (acc, ws) = Inr (acc', ws') \<longrightarrow>
             nrows acc' = nrows acc \<and> ncols acc' = ncols acc
             \<and> nrows ws' = nrows ws \<and> ncols ws' = ncols ws)"
proof -
  have px: "pixel_size_x cv \<noteq> 0" "pixel_size_y cv \<noteq> 0"
    using canvas_geometry_pixel_sizes [OF assms(1)] by simp_all
  have 1: "blend_accumulators blend ps = Inl ValueError"
  proof (cases "height cv < 0 \<or> width cv < 0")
    case True
    then show ?thesis by (simp add: blend_accumulators_def assms(1) np_zeros_def)
  next
    case False
    define z where "z = \<lparr>nrows = nat (height cv), ncols = nat (width cv), cell = (\<lambda>i j. 0::real)\<rparr>"
    have zz: "np_zeros (height cv) (width cv) = Inr z"
      using False by (simp add: np_zeros_def z_def)
    have sh: "int (nrows z) = height cv" "int (ncols z) = width cv"
      using False by (simp_all add: z_def)
    have "blend_patch blend cv p (z, z) = Inl ValueError"
      using assms(2) px assms(4,5) assms(6) unfolding sh [symmetric]
      by (rule blend_patch_overflow)
    with assms(3) have "accumulate blend cv ps (z, z) = Inl ValueError"
      by (rule accumulate_member_fails)
    then show ?thesis by (simp add: blend_accumulators_def assms(1) zz)
  qed
  show ?thesis using 1 blend_patch_shape by blast
qed


theorem overflowing_patch_fails_witness:
  "canvas_geometry [square_patch, fine_patch] = Inr square_canvas
   \<and> known_blend ''average''
   \<and> height square_canvas < row_offset square_canvas fine_patch + int (nrows (data fine_patch))
   \<and> blend_accumulators ''average'' [square_patch, fine_patch] = Inl ValueError"
  using overflowing_patch_fails [of "[square_patch, fine_patch]" square_canvas "''average''" fine_patch,
      THEN conjunct1]
  by (simp add: canvas_square_fine known_blend_def fine_patch_offsets square_canvas_simps)
    (simp add: fine_patch_def)

theorem thin_patch_dropped_counterexample:
  "canvas_geometry [square_patch, thin_patch] = Inr square_canvas
   \<and> height square_canvas = 2
   \<and> row_offset square_canvas thin_patch + int (nrows (data thin_patch)) = 3
   \<and> result_cell (normalized_blend ''average'' [square_patch, thin_patch]) 1 0 = Some 5"
proof -
  define z where "z = \<lparr>nrows = 2, ncols = 2, cell = (\<lambda>i j. 0::real)\<rparr>"
  define a1 where "a1 = add_view z 0 0 (np_multiply (data square_patch) (np_ones 2 2))"
  define w1 where "w1 = add_view z 0 0 (np_ones 2 2)"
  define a2 where "a2 = add_view a1 2 0 (np_multiply (data thin_patch) (np_ones 1 2))"
  define w2 where "w2 = add_view w1 2 0 (np_ones 1 2)"
  have zs: "nrows z = 2" "ncols z = 2" by (simp_all add: z_def)
  have zz: "np_zeros 2 2 = Inr z" by (simp add: np_zeros_def z_def)
  have s1: "blend_patch ''average'' square_canvas square_patch (z, z) = Inr (a1, w1)"
    by (simp add: blend_patch_alt weight_map_average square_patch_simps square_canvas_simps
          square_patch_offsets fits_full zs a1_def w1_def)
  have sh: "nrows a1 = 2" "ncols a1 = 2" "nrows w1 = 2" "ncols w1 = 2"
    by (simp_all add: a1_def w1_def zs)
  have f1: "fits a1 2 0 (data thin_patch)"
    by (rule thin_fits(1)) (simp_all add: sh thin_patch_simps)
  have f2: "fits w1 2 0 (np_ones 1 2)"
    by (rule thin_fits(1)) (simp_all add: sh)
  have s2: "blend_patch ''average'' square_canvas thin_patch (a1, w1) = Inr (a2, w2)"
    using f1 f2
    by (simp add: blend_patch_alt weight_map_average thin_patch_simps square_canvas_simps
          thin_patch_offsets a2_def w2_def)
  have acc: "accumulate ''average'' square_canvas [square_patch, thin_patch] (z, z) = Inr (a2, w2)"
    by (simp add: s1 s2)
  have b: "blend_accumulators ''average'' [square_patch, thin_patch] = Inr (square_canvas, a2, w2)"
    by (simp add: blend_accumulators_def canvas_square_thin square_canvas_simps zz s1 s2)
  have c1: "cell a1 1 0 = 5" "cell w1 1 0 = 1"
    by (simp_all add: a1_def w1_def add_view_cell in_window_full view_value_full zs
          square_patch_simps z_def)
  have n1: "\<not> in_window a1 2 0 (np_multiply (data thin_patch) (np_ones 1 2)) 1 0"
    by (rule thin_fits(2)) (simp_all add: sh thin_patch_simps)
  have n2: "\<not> in_window w1 2 0 (np_ones 1 2) 1 0"
    by (rule thin_fits(2)) (simp_all add: sh)
  have c2: "cell a2 1 0 = 5" "cell w2 1 0 = 1"
    using n1 n2 c1 by (simp_all add: a2_def w2_def add_view_cell)
  have "result_cell (normalized_blend ''average'' [square_patch, thin_patch]) 1 0 = Some 5"
    using c2 by (simp add: normalized_blend_def result_cell_def b normalize_def)
  then show ?thesis
    by (simp add: canvas_square_thin square_canvas_simps thin_patch_offsets thin_patch_simps)
qed

section \<open>The arguments of the blend\<close>

lemma empty_patch_list:
  "blend_patches_to_raster (Some []) None blend dtype mask_file = Inl FileNotFoundError"
  "blend_patches_to_raster None (Some []) blend dtype mask_file = Inl FileNotFoundError"
  "blend_patches_to_raster None None blend dtype mask_file = Inl ValueError"
  by (simp_all add: blend_patches_to_raster_def)

lemma unknown_blend_raises:
  assumes "\<not> known_blend blend" and "canvas_geometry (p # ps) = Inr cv"
    and "0 \<le> height cv" and "0 \<le> width cv"
  shows "blend_patches_to_raster (Some (p # ps)) None blend dtype mask_file = Inl ValueError"
proof -
  have "weight_map blend (nrows (data p)) (ncols (data p)) = Inl ValueError"
    using assms(1) by (simp add: weight_map_def known_blend_def)
  then have "blend_patch blend cv p s = Inl ValueError" for s
    by (cases s) (simp add: blend_patch_alt)
  then show ?thesis
    using assms(3,4)
    by (simp add: blend_patches_to_raster_def blend_accumulators_def assms(2) np_zeros_def)
qed

text \<open>
  Claim C4, at an input on which it fails. With one patch, the mode average and
  the dtype float32 the blend raises nothing: it returns the unclipped float
  array together with the dtype it was given.
\<close>

theorem unknown_dtype_not_rejected:
  "\<not> isl (blend_patches_to_raster (Some [square_patch]) None ''average'' ''float32'' None)
   \<and> (case blend_patches_to_raster (Some [square_patch]) None ''average'' ''float32'' None of
        Inl e \<Rightarrow> False
      | Inr r \<Rightarrow> out_dtype r = ''float32''
          \<and> (case out_pixels r of Float32 f \<Rightarrow> f 0 0 = 5 | UInt16 f \<Rightarrow> False | UInt8 f \<Rightarrow> False))"
proof -
  obtain cv where b: "blend_accumulators ''average'' [square_patch] =
     Inr (cv,
          add_view \<lparr>nrows = 2, ncols = 2, cell = (\<lambda>i j. 0)\<rparr> 0 0
            (np_multiply (data square_patch) (np_ones 2 2)),
          add_view \<lparr>nrows = 2, ncols = 2, cell = (\<lambda>i j. 0)\<rparr> 0 0 (np_ones 2 2))"
    using blend_accumulators_single [of square_patch "''average''" "np_ones 2 2"]
    by (auto simp add: square_patch_simps weight_map_average)
  have d: "convert_dtype ''float32'' r = Float32 (cell r)" for r
    by (simp add: convert_dtype_def)
  show ?thesis
    by (simp add: blend_patches_to_raster_def b d apply_mask_def normalize_def add_view_cell
          in_window_full view_value_full square_patch_simps)
qed

end
